theory Spec2Isabelle
  imports Main
begin

section \<open>JavaScript values handled by index.js\<close>

text \<open>
  The program receives the body of an HTTP response as parsed JSON and walks it with
  property reads, \<^verbatim>\<open>reduce\<close>, \<^verbatim>\<open>map\<close> and \<^verbatim>\<open>flat\<close>. The values it can meet are the JSON
  values, \<^verbatim>\<open>undefined\<close> (the result of reading a property that is not there) and one
  built-in function (an array answers a read of \<^verbatim>\<open>entries\<close> with
  \<^verbatim>\<open>Array.prototype.entries\<close>).

  The program never computes with a number; it can only print one. A number is therefore
  kept as the decimal text that JavaScript prints for it. Strings are kept as opaque
  character lists; the program never indexes or measures a string.

  An object is the list of its own properties. A read takes the first binding of a name.
\<close>

datatype jsval =
    Undefined
  | JNull
  | JBool bool
  | JNum string
  | JStr string
  | JArr "jsval list"
  | JObj "(string \<times> jsval) list"
  | JFunction string

text \<open>
  Every exception the program can raise on such values is a \<^verbatim>\<open>TypeError\<close>. The
  constructors tell the four causes apart.
\<close>

datatype type_error =
    ReadOfNullish       \<comment> \<open>a property read or a destructuring of undefined or null\<close>
  | NotAFunction        \<comment> \<open>a call of a method the receiver does not have\<close>
  | NotIterable         \<comment> \<open>a spread of a value that has no iterator\<close>
  | NoPrimitive         \<comment> \<open>a conversion to string of an object that offers none\<close>

definition then_do :: "type_error + 'a \<Rightarrow> ('a \<Rightarrow> type_error + 'b) \<Rightarrow> type_error + 'b" where
  "then_do r f = (case r of Inl e \<Rightarrow> Inl e | Inr x \<Rightarrow> f x)"

text \<open>The property names that index.js reads from the response.\<close>

datatype field =
    F_data | F_metadata | F_results | F_provider | F_lexicalEntries
  | F_entries | F_lexicalCategory | F_text | F_senses | F_definitions

fun field_name :: "field \<Rightarrow> string" where
  "field_name F_data = ''data''"
| "field_name F_metadata = ''metadata''"
| "field_name F_results = ''results''"
| "field_name F_provider = ''provider''"
| "field_name F_lexicalEntries = ''lexicalEntries''"
| "field_name F_entries = ''entries''"
| "field_name F_lexicalCategory = ''lexicalCategory''"
| "field_name F_text = ''text''"
| "field_name F_senses = ''senses''"
| "field_name F_definitions = ''definitions''"

text \<open>
  \<^verbatim>\<open>v.name\<close> and \<^verbatim>\<open>const { name } = v\<close>. Reading from undefined or null throws. An
  object answers with its own property, or undefined. Of the ten names only
  \<^verbatim>\<open>entries\<close> is found on a prototype, that of arrays; strings, numbers, booleans and
  functions have none of them.
\<close>

fun get_prop :: "jsval \<Rightarrow> field \<Rightarrow> type_error + jsval" where
  "get_prop Undefined f = Inl ReadOfNullish"
| "get_prop JNull f = Inl ReadOfNullish"
| "get_prop (JObj kvs) f =
     Inr (case map_of kvs (field_name f) of Some v \<Rightarrow> v | None \<Rightarrow> Undefined)"
| "get_prop (JArr xs) f = Inr (if f = F_entries then JFunction ''entries'' else Undefined)"
| "get_prop (JBool b) f = Inr Undefined"
| "get_prop (JNum n) f = Inr Undefined"
| "get_prop (JStr s) f = Inr Undefined"
| "get_prop (JFunction n) f = Inr Undefined"

text \<open>
  The receiver of \<^verbatim>\<open>x.reduce(...)\<close> and \<^verbatim>\<open>x.map(...)\<close>: an array runs the method;
  undefined and null throw on the read of the method; every other value has no such
  method (a parsed object can own a property of that name, but never a function), so the
  call throws.
\<close>

fun array_receiver :: "jsval \<Rightarrow> type_error + jsval list" where
  "array_receiver (JArr xs) = Inr xs"
| "array_receiver Undefined = Inl ReadOfNullish"
| "array_receiver JNull = Inl ReadOfNullish"
| "array_receiver v = Inl NotAFunction"

text \<open>
  \<^verbatim>\<open>xs.reduce(f, init)\<close> and \<^verbatim>\<open>xs.map(f)\<close> with a callback that can throw. The
  callbacks of index.js read their first two (one) parameters only.
\<close>

fun reduce :: "('a \<Rightarrow> jsval \<Rightarrow> type_error + 'a) \<Rightarrow> 'a \<Rightarrow> jsval list \<Rightarrow> type_error + 'a" where
  "reduce f acc [] = Inr acc"
| "reduce f acc (x # xs) = then_do (f acc x) (\<lambda>acc'. reduce f acc' xs)"

fun map_array :: "('a \<Rightarrow> type_error + 'b) \<Rightarrow> 'a list \<Rightarrow> type_error + 'b list" where
  "map_array f [] = Inr []"
| "map_array f (x # xs) =
     then_do (f x) (\<lambda>y. then_do (map_array f xs) (\<lambda>ys. Inr (y # ys)))"

text \<open>\<^verbatim>\<open>xs.flat()\<close>: one level; an element that is an array is replaced by its elements.\<close>

fun flat_element :: "jsval \<Rightarrow> jsval list" where
  "flat_element (JArr ys) = ys"
| "flat_element v = [v]"

definition flat :: "jsval list \<Rightarrow> jsval list" where
  "flat xs = concat (map flat_element xs)"

section \<open>Conversion to string\<close>

text \<open>
  Template literals and property keys convert a value with ToString. A parsed array has
  the \<^verbatim>\<open>toString\<close> of arrays: its elements joined by commas, undefined and null as the
  empty string. A parsed object prints as \<^verbatim>\<open>[object Object]\<close>, unless it owns a property
  named \<^verbatim>\<open>toString\<close>: that property is no function, \<^verbatim>\<open>valueOf\<close> yields no primitive
  either, and the conversion throws.
\<close>

definition join_two :: "type_error + string \<Rightarrow> type_error + string \<Rightarrow> type_error + string" where
  "join_two a b = then_do a (\<lambda>s. then_do b (\<lambda>r. Inr (s @ '','' @ r)))"

fun to_string :: "jsval \<Rightarrow> type_error + string"
  and join_elements :: "jsval list \<Rightarrow> type_error + string"
  and element_string :: "jsval \<Rightarrow> type_error + string" where
  "to_string Undefined = Inr ''undefined''"
| "to_string JNull = Inr ''null''"
| "to_string (JBool b) = Inr (if b then ''true'' else ''false'')"
| "to_string (JNum n) = Inr n"
| "to_string (JStr s) = Inr s"
| "to_string (JArr xs) = join_elements xs"
| "to_string (JObj kvs) =
     (if ''toString'' \<in> set (map fst kvs) then Inl NoPrimitive else Inr ''[object Object]'')"
| "to_string (JFunction n) = Inr (''function '' @ n @ ''() { [native code] }'')"
| "join_elements [] = Inr []"
| "join_elements [x] = element_string x"
| "join_elements (x # y # ys) = join_two (element_string x) (join_elements (y # ys))"
| "element_string Undefined = Inr []"
| "element_string JNull = Inr []"
| "element_string (JBool b) = to_string (JBool b)"
| "element_string (JNum n) = to_string (JNum n)"
| "element_string (JStr s) = to_string (JStr s)"
| "element_string (JArr xs) = to_string (JArr xs)"
| "element_string (JObj kvs) = to_string (JObj kvs)"
| "element_string (JFunction n) = to_string (JFunction n)"

text \<open>The decimal numeral of a natural number, as \<^verbatim>\<open>${index + 1}\<close> prints it.\<close>

definition digit_char :: "nat \<Rightarrow> char" where
  "digit_char d = ''0123456789'' ! d"

function nat_to_string :: "nat \<Rightarrow> string" where
  "nat_to_string n =
     (if n < 10 then [digit_char n] else nat_to_string (n div 10) @ [digit_char (n mod 10)])"
  by pat_completeness auto
termination
  by (relation "measure id") auto

definition newline :: string where
  "newline = [CHR 0x0A]"

fun join_with :: "string \<Rightarrow> string list \<Rightarrow> string" where
  "join_with sep [] = []"
| "join_with sep [s] = s"
| "join_with sep (s # t # ts) = s @ sep @ join_with sep (t # ts)"

section \<open>The collector object\<close>

text \<open>
  \<^verbatim>\<open>results.reduce(treatTopLevelObject, {})\<close> starts from an empty plain object and
  stores arrays in it under part-of-speech keys. The collector is the list of its own
  properties in the order of their creation; every value is an array.

  A plain object inherits from \<^verbatim>\<open>Object.prototype\<close>, so \<^verbatim>\<open>collector[key]\<close> finds an
  inherited value for the names below when the collector owns no such property. The
  number is the \<^verbatim>\<open>length\<close> of the inherited function; \<^verbatim>\<open>__proto__\<close> yields
  \<^verbatim>\<open>Object.prototype\<close> itself, which has no \<^verbatim>\<open>length\<close>.
\<close>

type_synonym collection = "(string \<times> jsval list) list"

definition object_prototype :: "(string \<times> nat option) list" where
  "object_prototype =
     [(''constructor'', Some 1), (''__defineGetter__'', Some 2), (''__defineSetter__'', Some 2),
      (''hasOwnProperty'', Some 1), (''__lookupGetter__'', Some 1), (''__lookupSetter__'', Some 1),
      (''isPrototypeOf'', Some 1), (''propertyIsEnumerable'', Some 1), (''toString'', Some 0),
      (''valueOf'', Some 0), (''__proto__'', None), (''toLocaleString'', Some 0)]"

definition inherited :: "string \<Rightarrow> bool" where
  "inherited k = (k \<in> set (map fst object_prototype))"

datatype lookup = Own "jsval list" | Inherited "nat option" | Absent

definition collector_get :: "collection \<Rightarrow> string \<Rightarrow> lookup" where
  "collector_get c k =
     (case map_of c k of
        Some v \<Rightarrow> Own v
      | None \<Rightarrow> (case map_of object_prototype k of Some l \<Rightarrow> Inherited l | None \<Rightarrow> Absent))"

text \<open>
  \<^verbatim>\<open>const current = collector[partOfSpeech] || []\<close> followed by \<^verbatim>\<open>[...current, ...]\<close>:
  an own array (truthy also when empty) is spread; undefined is replaced by the empty
  array; an inherited function or object is truthy and cannot be spread.
\<close>

fun spread_current :: "lookup \<Rightarrow> type_error + jsval list" where
  "spread_current (Own v) = Inr v"
| "spread_current Absent = Inr []"
| "spread_current (Inherited l) = Inl NotIterable"

text \<open>
  \<^verbatim>\<open>collector[key] = v\<close>: an own property keeps its place; a new one is created last.
\<close>

fun collector_set :: "collection \<Rightarrow> string \<Rightarrow> jsval list \<Rightarrow> collection" where
  "collector_set [] k v = [(k, v)]"
| "collector_set ((k', v') # c) k v =
     (if k' = k then (k, v) # c else (k', v') # collector_set c k v)"

text \<open>
  \<^verbatim>\<open>Object.keys(collection)\<close>: the own keys that are array indices (canonical decimal
  numerals up to \<open>2^32 - 2\<close>) in ascending numeric order, then all other keys in the
  order of their creation.
\<close>

definition is_digit :: "char \<Rightarrow> bool" where
  "is_digit ch = (48 \<le> (of_char ch :: int) \<and> (of_char ch :: int) \<le> 57)"

definition digits_value :: "string \<Rightarrow> int" where
  "digits_value s = foldl (\<lambda>n ch. 10 * n + ((of_char ch :: int) - 48)) 0 s"

definition is_array_index :: "string \<Rightarrow> bool" where
  "is_array_index s =
     (s \<noteq> [] \<and> list_all is_digit s \<and> (s = ''0'' \<or> hd s \<noteq> CHR ''0'')
      \<and> digits_value s < 4294967295)"

definition object_keys :: "collection \<Rightarrow> string list" where
  "object_keys c =
     sort_key digits_value (filter is_array_index (map fst c))
     @ filter (\<lambda>k. \<not> is_array_index k) (map fst c)"

section \<open>The Response Reducer (index.js, lines 121 to 169)\<close>

text \<open>
  \<^verbatim>\<open>treatSense\<close>: \<^verbatim>\<open>[...array, sense.definitions].flat()\<close>. The read throws on a null
  sense; the value read is appended as one element, whatever it is, and \<^verbatim>\<open>flat\<close> then
  opens the elements that are arrays.
\<close>

definition treatSense :: "jsval list \<Rightarrow> jsval \<Rightarrow> type_error + jsval list" where
  "treatSense array sense =
     then_do (get_prop sense F_definitions) (\<lambda>definitions. Inr (flat (array @ [definitions])))"

text \<open>
  \<^verbatim>\<open>treatEntry\<close>: \<^verbatim>\<open>const { senses=[] } = entry\<close> takes the default when the property is
  undefined, and only then.
\<close>

definition treatEntry :: "jsval \<Rightarrow> type_error + jsval list" where
  "treatEntry entry =
     then_do (get_prop entry F_senses) (\<lambda>s.
     then_do (array_receiver (if s = Undefined then JArr [] else s)) (\<lambda>senses.
     reduce treatSense [] senses))"

text \<open>
  \<^verbatim>\<open>treatLexicalEntry\<close>: the destructuring, \<^verbatim>\<open>lexicalCategory.text\<close>,
  \<^verbatim>\<open>entries.map(treatEntry).flat()\<close> (every element of the mapped array is an array, so
  \<^verbatim>\<open>flat\<close> concatenates them), then the read and the write of the collector under the
  key that the part of speech converts to.
\<close>

definition treatLexicalEntry :: "collection \<Rightarrow> jsval \<Rightarrow> type_error + collection" where
  "treatLexicalEntry collector lexicalEntry =
     then_do (get_prop lexicalEntry F_entries) (\<lambda>entries.
     then_do (get_prop lexicalEntry F_lexicalCategory) (\<lambda>lexicalCategory.
     then_do (get_prop lexicalCategory F_text) (\<lambda>partOfSpeech.
     then_do (array_receiver entries) (\<lambda>es.
     then_do (map_array treatEntry es) (\<lambda>mapped.
     then_do (to_string partOfSpeech) (\<lambda>key.
     then_do (spread_current (collector_get collector key)) (\<lambda>current.
     Inr (collector_set collector key (current @ concat mapped)))))))))"

definition treatTopLevelObject :: "collection \<Rightarrow> jsval \<Rightarrow> type_error + collection" where
  "treatTopLevelObject collector topLevelObject =
     then_do (get_prop topLevelObject F_lexicalEntries) (\<lambda>lexicalEntries.
     then_do (array_receiver lexicalEntries) (\<lambda>les.
     reduce treatLexicalEntry collector les))"

text \<open>Line 88: \<^verbatim>\<open>results.reduce(treatTopLevelObject, {})\<close>.\<close>

definition collect :: "jsval \<Rightarrow> type_error + collection" where
  "collect results =
     then_do (array_receiver results) (\<lambda>rs. reduce treatTopLevelObject [] rs)"

section \<open>The Text Renderer (index.js, lines 95 to 106)\<close>

text \<open>The callback of \<^verbatim>\<open>data.map\<close>: \<^verbatim>\<open>`${index + 1}. ${definition}`\<close>.\<close>

definition render_line :: "nat \<times> jsval \<Rightarrow> type_error + string" where
  "render_line p =
     then_do (to_string (snd p)) (\<lambda>s. Inr (nat_to_string (fst p + 1) @ ''. '' @ s))"

text \<open>
  The body of \<^verbatim>\<open>categories.forEach\<close>, with the text accumulated so far. An own array is
  rendered when it is not empty. The other two cases of the read cannot arise for a key
  taken from \<^verbatim>\<open>Object.keys\<close>; they are written out as JavaScript evaluates them.
\<close>

definition render_category :: "collection \<Rightarrow> string \<Rightarrow> string \<Rightarrow> type_error + string" where
  "render_category collection definitions category =
     (case collector_get collection category of
        Own data \<Rightarrow>
          if data \<noteq> [] then
            then_do (map_array render_line (enumerate 0 data)) (\<lambda>catDefs.
            Inr (definitions @ newline @ ''# '' @ category @ newline
                 @ join_with newline catDefs @ newline))
          else Inr definitions
      | Inherited l \<Rightarrow>
          (case l of Some (Suc n) \<Rightarrow> Inl NotAFunction | _ \<Rightarrow> Inr definitions)
      | Absent \<Rightarrow> Inr definitions)"

fun forEach_category :: "collection \<Rightarrow> string \<Rightarrow> string list \<Rightarrow> type_error + string" where
  "forEach_category collection definitions [] = Inr definitions"
| "forEach_category collection definitions (category # categories) =
     then_do (render_category collection definitions category) (\<lambda>definitions'.
     forEach_category collection definitions' categories)"

definition render_definitions :: "collection \<Rightarrow> type_error + string" where
  "render_definitions collection = forEach_category collection [] (object_keys collection)"

section \<open>treatResponse (index.js, lines 83 to 113)\<close>

text \<open>
  The console is the list of the arguments of \<^verbatim>\<open>console.log\<close> so far. The function
  returns the console it leaves and the error it throws, if any: the title line reads
  \<^verbatim>\<open>metadata.provider\<close> after the first banner is logged. \<^verbatim>\<open>expression\<close> is the
  global variable of the script, a string.
\<close>

definition banner :: string where
  "banner = ''***************************''"

definition title :: "string \<Rightarrow> string \<Rightarrow> string" where
  "title expression provider =
     newline @ ''Definitions of \"'' @ expression @ ''\", as provided by '' @ provider"

definition treatResponse :: "string \<Rightarrow> jsval \<Rightarrow> string list \<Rightarrow> string list \<times> type_error option" where
  "treatResponse expression response console =
     (case then_do (get_prop response F_data) (\<lambda>data.
           then_do (get_prop data F_metadata) (\<lambda>metadata.
           then_do (get_prop data F_results) (\<lambda>results.
           then_do (collect results) (\<lambda>collection.
           then_do (render_definitions collection) (\<lambda>definitions.
           Inr (metadata, definitions)))))) of
        Inl e \<Rightarrow> (console, Some e)
      | Inr (metadata, definitions) \<Rightarrow>
          (case then_do (get_prop metadata F_provider) to_string of
             Inl e \<Rightarrow> (console @ [banner], Some e)
           | Inr provider \<Rightarrow>
               (console @ [banner, title expression provider, definitions, banner], None)))"

section \<open>The documented shape of a response\<close>

text \<open>
  The shape of the results that the comments of index.js describe (lines 74 to 81, 117
  to 133 and 153 to 159), and over which the properties below quantify: a sense with
  optional definitions (strings), an entry with optional senses, a lexical entry with a
  part-of-speech label and its entries, a top-level object with its lexical entries. The
  decoders accept every parsed value of that shape, whatever other properties its objects
  own, and nothing else.
\<close>

datatype sense = Sense (sense_definitions: "string list option")

datatype sense_group = SenseGroup (group_senses: "sense list option")

datatype lexical_entry = LexicalEntry (entry_text: string) (entry_groups: "sense_group list")

datatype result_entry = ResultEntry (result_lexicalEntries: "lexical_entry list")

fun decode_list :: "('a \<Rightarrow> 'b option) \<Rightarrow> 'a list \<Rightarrow> 'b list option" where
  "decode_list f [] = Some []"
| "decode_list f (x # xs) =
     (case f x of
        None \<Rightarrow> None
      | Some y \<Rightarrow> (case decode_list f xs of None \<Rightarrow> None | Some ys \<Rightarrow> Some (y # ys)))"

fun decode_string :: "jsval \<Rightarrow> string option" where
  "decode_string (JStr s) = Some s"
| "decode_string v = None"

fun decode_sense :: "jsval \<Rightarrow> sense option" where
  "decode_sense (JObj kvs) =
     (case map_of kvs ''definitions'' of
        None \<Rightarrow> Some (Sense None)
      | Some (JArr ds) \<Rightarrow> map_option (\<lambda>xs. Sense (Some xs)) (decode_list decode_string ds)
      | Some v \<Rightarrow> None)"
| "decode_sense v = None"

fun decode_group :: "jsval \<Rightarrow> sense_group option" where
  "decode_group (JObj kvs) =
     (case map_of kvs ''senses'' of
        None \<Rightarrow> Some (SenseGroup None)
      | Some (JArr ss) \<Rightarrow> map_option (\<lambda>xs. SenseGroup (Some xs)) (decode_list decode_sense ss)
      | Some v \<Rightarrow> None)"
| "decode_group v = None"

fun decode_category :: "jsval \<Rightarrow> string option" where
  "decode_category (JObj kvs) =
     (case map_of kvs ''text'' of Some (JStr t) \<Rightarrow> Some t | _ \<Rightarrow> None)"
| "decode_category v = None"

fun decode_lexical :: "jsval \<Rightarrow> lexical_entry option" where
  "decode_lexical (JObj kvs) =
     (case map_of kvs ''lexicalCategory'' of
        None \<Rightarrow> None
      | Some lc \<Rightarrow>
          (case decode_category lc of
             None \<Rightarrow> None
           | Some t \<Rightarrow>
               (case map_of kvs ''entries'' of
                  Some (JArr es) \<Rightarrow> map_option (LexicalEntry t) (decode_list decode_group es)
                | _ \<Rightarrow> None)))"
| "decode_lexical v = None"

fun decode_result :: "jsval \<Rightarrow> result_entry option" where
  "decode_result (JObj kvs) =
     (case map_of kvs ''lexicalEntries'' of
        Some (JArr les) \<Rightarrow> map_option ResultEntry (decode_list decode_lexical les)
      | _ \<Rightarrow> None)"
| "decode_result v = None"

fun decode_results :: "jsval \<Rightarrow> result_entry list option" where
  "decode_results (JArr rs) = decode_list decode_result rs"
| "decode_results v = None"

text \<open>
  What the traversal meets, read off the decoded response: the lexical entries in the
  order of the two nested reductions, their labels, and the list that lines 141 and 142
  compute for one lexical entry. A Sense without definitions stands in that list as one
  undefined element, since \<^verbatim>\<open>treatSense\<close> appends whatever it reads.
\<close>

fun sense_contribution :: "sense \<Rightarrow> jsval list" where
  "sense_contribution (Sense None) = [Undefined]"
| "sense_contribution (Sense (Some ds)) = map JStr ds"

fun group_contribution :: "sense_group \<Rightarrow> jsval list" where
  "group_contribution (SenseGroup None) = []"
| "group_contribution (SenseGroup (Some ss)) = concat (map sense_contribution ss)"

definition entry_contribution :: "lexical_entry \<Rightarrow> jsval list" where
  "entry_contribution le = concat (map group_contribution (entry_groups le))"

definition all_lexical_entries :: "result_entry list \<Rightarrow> lexical_entry list" where
  "all_lexical_entries rs = concat (map result_lexicalEntries rs)"

definition labels :: "result_entry list \<Rightarrow> string list" where
  "labels rs = map entry_text (all_lexical_entries rs)"







text \<open>The distinct elements of a list in the order of their first occurrences.\<close>

fun first_seen :: "'a list \<Rightarrow> 'a list" where
  "first_seen [] = []"
| "first_seen (x # xs) = x # first_seen (removeAll x xs)"

text \<open>The own property of a collector, or the empty list.\<close>

definition list_at :: "collection \<Rightarrow> string \<Rightarrow> jsval list" where
  "list_at c k = (case map_of c k of Some v \<Rightarrow> v | None \<Rightarrow> [])"

section \<open>Sample responses\<close>

text \<open>
  Scenario A: one verb with one definition.
  \<^verbatim>\<open>[{lexicalEntries: [{lexicalCategory: {text: "Verb"},
      entries: [{senses: [{definitions: ["fix code"]}]}]}]}]\<close>
\<close>

definition scenario_A :: jsval where
  "scenario_A =
     JArr [JObj [(''lexicalEntries'', JArr
       [JObj [(''lexicalCategory'', JObj [(''text'', JStr ''Verb'')]),
              (''entries'', JArr [JObj [(''senses'', JArr
                [JObj [(''definitions'', JArr [JStr ''fix code''])]])]])]])]]"

text \<open>
  Scenario B: a lexical entry whose only entry has no senses.
  \<^verbatim>\<open>{lexicalCategory: {text: "Noun"}, entries: [{}]}\<close>
\<close>

definition scenario_B :: jsval where
  "scenario_B =
     JObj [(''lexicalCategory'', JObj [(''text'', JStr ''Noun'')]),
           (''entries'', JArr [JObj []])]"

text \<open>
  A lexical entry with one sense group of one sense with the given definitions, and a
  result entry of the given lexical entries.
\<close>

definition lexical :: "string \<Rightarrow> string list \<Rightarrow> jsval" where
  "lexical t ds =
     JObj [(''lexicalCategory'', JObj [(''text'', JStr t)]),
           (''entries'', JArr [JObj [(''senses'', JArr
             [JObj [(''definitions'', JArr (map JStr ds))]])]])]"

definition result :: "jsval list \<Rightarrow> jsval" where
  "result les = JObj [(''lexicalEntries'', JArr les)]"

text \<open>Scenario C: two nouns in two result entries, defined as a and as b.\<close>

definition scenario_C :: jsval where
  "scenario_C = JArr [result [lexical ''Noun'' [''a'']], result [lexical ''Noun'' [''b'']]]"

text \<open>The same with the label \<^verbatim>\<open>constructor\<close>, a name every plain object inherits.\<close>

definition inherited_label :: jsval where
  "inherited_label =
     JArr [result [lexical ''constructor'' [''a'']], result [lexical ''constructor'' [''b'']]]"

text \<open>A noun followed by an entry whose label is the numeral 1.\<close>

definition index_label :: jsval where
  "index_label = JArr [result [lexical ''Noun'' [''a''], lexical ''1'' [''b'']]]"

text \<open>
  A sense without definitions:
  \<^verbatim>\<open>[{lexicalEntries: [{lexicalCategory: {text: "Noun"}, entries: [{senses: [{}]}]}]}]\<close>
\<close>

definition sense_without_definitions :: jsval where
  "sense_without_definitions =
     JArr [JObj [(''lexicalEntries'', JArr
       [JObj [(''lexicalCategory'', JObj [(''text'', JStr ''Noun'')]),
              (''entries'', JArr [JObj [(''senses'', JArr [JObj []])]])]])]]"

text \<open>A response body with the given metadata and results, inside the HTTP response.\<close>

definition response_of :: "jsval \<Rightarrow> jsval \<Rightarrow> jsval" where
  "response_of metadata results =
     JObj [(''status'', JNum ''200''),
           (''data'', JObj [(''metadata'', metadata), (''results'', results)])]"

definition oxford :: jsval where
  "oxford = JObj [(''provider'', JStr ''Oxford University Press'')]"

text \<open>Two verbs around a noun, in two result entries.\<close>

definition three_entries :: jsval where
  "three_entries =
     JArr [result [lexical ''Verb'' [''a''], lexical ''Noun'' [''b'']],
           result [lexical ''Verb'' [''c'']]]"

text \<open>A response whose body has results and no metadata.\<close>

definition without_metadata :: jsval where
  "without_metadata = JObj [(''data'', JObj [(''results'', scenario_A)])]"

text \<open>A lexical entry with a category and no entries.\<close>

definition lacking_entries :: jsval where
  "lacking_entries = JObj [(''lexicalCategory'', JObj [(''text'', JStr ''Noun'')])]"

section \<open>Evaluation rules\<close>

lemma then_do_Inl [simp]: "then_do (Inl e) f = Inl e"
  by (simp add: then_do_def)

lemma then_do_Inr [simp]: "then_do (Inr x) f = f x"
  by (simp add: then_do_def)

lemma then_do_eq_Inr:
  "then_do r f = Inr y \<longleftrightarrow> (\<exists>x. r = Inr x \<and> f x = Inr y)"
  by (cases r) simp_all

lemma reduce_append:
  "reduce f c (xs @ ys) = then_do (reduce f c xs) (\<lambda>c'. reduce f c' ys)"
proof (induction xs arbitrary: c)
  case Nil
  show ?case by simp
next
  case (Cons x xs)
  show ?case
  proof (cases "f c x")
    case (Inl e)
    then show ?thesis by simp
  next
    case (Inr c1)
    then show ?thesis by (simp add: Cons.IH)
  qed
qed

lemma reduce_throws:
  assumes "x \<in> set xs" and "\<And>c. isl (f c x)"
  shows "isl (reduce f c xs)"
  using assms(1)
proof (induction xs arbitrary: c)
  case Nil
  then show ?case by simp
next
  case (Cons y ys)
  show ?case
  proof (cases "f c y")
    case (Inl e)
    then show ?thesis by simp
  next
    case (Inr c1)
    have "y \<noteq> x"
      using assms(2) [of c] Inr by auto
    with Cons.prems have "x \<in> set ys" by simp
    then show ?thesis using Inr Cons.IH by simp
  qed
qed

subsection \<open>The reducer on a response of the documented shape\<close>

lemma decode_list_Cons:
  "decode_list f (x # xs) = Some zs \<longleftrightarrow>
     (\<exists>y ys. f x = Some y \<and> decode_list f xs = Some ys \<and> zs = y # ys)"
  by (auto split: option.splits)

lemma decode_list_append:
  "decode_list f xs = Some a \<Longrightarrow> decode_list f ys = Some b \<Longrightarrow>
     decode_list f (xs @ ys) = Some (a @ b)"
  by (induction xs arbitrary: a) (auto split: option.splits)

lemma decode_strings:
  "decode_list decode_string ds = Some xs \<Longrightarrow> ds = map JStr xs"
proof (induction ds arbitrary: xs)
  case Nil
  then show ?case by simp
next
  case (Cons d ds)
  from Cons.prems [unfolded decode_list_Cons]
  obtain y ys where y: "decode_string d = Some y" "decode_list decode_string ds = Some ys" "xs = y # ys"
    by blast
  from y(1) have "d = JStr y" by (cases d) simp_all
  with y Cons.IH show ?case by simp
qed

lemma flat_plain:
  "\<forall>x\<in>set xs. flat_element x = [x] \<Longrightarrow> flat xs = xs"
  by (induction xs) (simp_all add: flat_def)

lemma flat_snoc:
  "\<forall>x\<in>set xs. flat_element x = [x] \<Longrightarrow> flat (xs @ [y]) = xs @ flat_element y"
  using flat_plain [of xs] by (simp add: flat_def)

lemma sense_contribution_plain:
  "x \<in> set (sense_contribution s) \<Longrightarrow> flat_element x = [x]"
  by (cases s rule: sense_contribution.cases) auto

lemma treatSense_decoded:
  assumes "decode_sense v = Some s" and "\<forall>x\<in>set acc. flat_element x = [x]"
  shows "treatSense acc v = Inr (acc @ sense_contribution s)"
proof -
  from assms(1) obtain kvs where v: "v = JObj kvs" by (cases v) simp_all
  show ?thesis
  proof (cases "map_of kvs ''definitions''")
    case None
    with assms v show ?thesis
      by (auto simp: treatSense_def flat_snoc)
  next
    case (Some d)
    with assms(1) v obtain ds xs where d: "d = JArr ds" "decode_list decode_string ds = Some xs"
      "s = Sense (Some xs)"
      by (cases d) auto
    with Some v assms(2) decode_strings [OF d(2)] show ?thesis
      by (simp add: treatSense_def flat_snoc)
  qed
qed

lemma reduce_treatSense:
  "decode_list decode_sense vs = Some ss \<Longrightarrow> \<forall>x\<in>set acc. flat_element x = [x] \<Longrightarrow>
     reduce treatSense acc vs = Inr (acc @ concat (map sense_contribution ss))"
proof (induction vs arbitrary: acc ss)
  case Nil
  then show ?case by simp
next
  case (Cons v vs)
  from Cons.prems(1) [unfolded decode_list_Cons]
  obtain s ss' where s: "decode_sense v = Some s" "decode_list decode_sense vs = Some ss'"
    "ss = s # ss'"
    by blast
  have plain: "\<forall>x\<in>set (acc @ sense_contribution s). flat_element x = [x]"
    using Cons.prems(2) sense_contribution_plain by auto
  show ?case
    using treatSense_decoded [OF s(1) Cons.prems(2)] Cons.IH [OF s(2) plain] s(3) by simp
qed

lemma treatEntry_decoded:
  assumes "decode_group v = Some g"
  shows "treatEntry v = Inr (group_contribution g)"
proof -
  from assms obtain kvs where v: "v = JObj kvs" by (cases v) simp_all
  show ?thesis
  proof (cases "map_of kvs ''senses''")
    case None
    with assms v show ?thesis by (auto simp: treatEntry_def)
  next
    case (Some d)
    with assms v obtain vs ss where d: "d = JArr vs" "decode_list decode_sense vs = Some ss"
      "g = SenseGroup (Some ss)"
      by (cases d) auto
    with Some v reduce_treatSense [OF d(2), of "[]"] show ?thesis
      by (simp add: treatEntry_def)
  qed
qed

lemma map_treatEntry:
  "decode_list decode_group vs = Some gs \<Longrightarrow>
     map_array treatEntry vs = Inr (map group_contribution gs)"
proof (induction vs arbitrary: gs)
  case Nil
  then show ?case by simp
next
  case (Cons v vs)
  from Cons.prems [unfolded decode_list_Cons]
  obtain g gs' where g: "decode_group v = Some g" "decode_list decode_group vs = Some gs'"
    "gs = g # gs'"
    by blast
  with Cons.IH treatEntry_decoded show ?case by simp
qed

lemma not_inherited_current:
  assumes "\<not> inherited k"
  shows "spread_current (collector_get c k) = Inr (list_at c k)"
proof -
  from assms have "map_of object_prototype k = None"
    by (simp add: inherited_def map_of_eq_None_iff)
  then show ?thesis
    by (cases "map_of c k") (simp_all add: collector_get_def list_at_def)
qed

lemma treatLexicalEntry_decoded:
  assumes "decode_lexical v = Some le"
  shows "treatLexicalEntry c v =
     then_do (spread_current (collector_get c (entry_text le))) (\<lambda>current.
       Inr (collector_set c (entry_text le) (current @ entry_contribution le)))"
proof -
  from assms obtain kvs where v: "v = JObj kvs" by (cases v) simp_all
  from assms v obtain lc t where lc: "map_of kvs ''lexicalCategory'' = Some lc" "decode_category lc = Some t"
    by (auto split: option.splits)
  from lc(2) obtain lkvs where lkvs: "lc = JObj lkvs" by (cases lc) simp_all
  with lc(2) have t: "map_of lkvs ''text'' = Some (JStr t)"
    by (auto split: option.splits jsval.splits)
  from assms v lc obtain es gs where es: "map_of kvs ''entries'' = Some (JArr es)"
    "decode_list decode_group es = Some gs" "le = LexicalEntry t gs"
    by (auto split: option.splits jsval.splits)
  show ?thesis
    using v lc(1) lkvs t es(1,3) map_treatEntry [OF es(2)]
    by (simp add: treatLexicalEntry_def entry_contribution_def)
qed

subsection \<open>The collector after a reduction\<close>

lemma keys_collector_set:
  "map fst (collector_set c k v) = (if k \<in> set (map fst c) then map fst c else map fst c @ [k])"
proof (induction c)
  case Nil
  show ?case by simp
next
  case (Cons p c)
  obtain k' v' where p: "p = (k', v')" by (cases p)
  show ?case
  proof (cases "k' = k")
    case True
    with p show ?thesis by simp
  next
    case False
    with p Cons.IH show ?thesis by simp
  qed
qed

lemma map_of_collector_set:
  "map_of (collector_set c k v) = (map_of c)(k \<mapsto> v)"
  by (induction c) auto

lemma list_at_collector_set:
  "list_at (collector_set c k v) k' = (if k' = k then v else list_at c k')"
  by (simp add: list_at_def map_of_collector_set)

lemma distinct_collector_set:
  "distinct (map fst c) \<Longrightarrow> distinct (map fst (collector_set c k v))"
  by (simp add: keys_collector_set)

lemma set_first_seen: "set (first_seen xs) = set xs"
  by (induction xs rule: first_seen.induct) auto


lemma first_seen_step:
  "first_seen (filter (\<lambda>x. x \<notin> set ks) (k # xs)) =
     (if k \<in> set ks then first_seen (filter (\<lambda>x. x \<notin> set ks) xs)
      else k # first_seen (filter (\<lambda>x. x \<notin> set (ks @ [k])) xs))"
proof -
  have "removeAll k (filter (\<lambda>x. x \<notin> set ks) xs) = filter (\<lambda>x. x \<notin> set (ks @ [k])) xs"
    by (induction xs) auto
  then show ?thesis by simp
qed

lemma reduce_lexical:
  "decode_list decode_lexical vs = Some les \<Longrightarrow>
   \<forall>le\<in>set les. \<not> inherited (entry_text le) \<Longrightarrow>
   \<exists>c'. reduce treatLexicalEntry c vs = Inr c'
      \<and> map fst c' = map fst c @ first_seen (filter (\<lambda>k. k \<notin> set (map fst c)) (map entry_text les))
      \<and> (\<forall>k. list_at c' k =
            list_at c k @ concat (map entry_contribution (filter (\<lambda>le. entry_text le = k) les)))"
proof (induction vs arbitrary: c les)
  case Nil
  then show ?case by simp
next
  case (Cons v vs)
  from Cons.prems(1) [unfolded decode_list_Cons]
  obtain le les' where le: "decode_lexical v = Some le" "decode_list decode_lexical vs = Some les'"
    "les = le # les'"
    by blast
  define k where "k = entry_text le"
  define c1 where "c1 = collector_set c k (list_at c k @ entry_contribution le)"
  have k: "\<not> inherited k" and rest: "\<forall>le\<in>set les'. \<not> inherited (entry_text le)"
    using Cons.prems(2) le(3) by (simp_all add: k_def)
  have step: "treatLexicalEntry c v = Inr c1"
    by (simp add: treatLexicalEntry_decoded [OF le(1)] not_inherited_current [OF k [unfolded k_def]]
        c1_def k_def)
  from Cons.IH [OF le(2) rest, of c1]
  obtain c' where c': "reduce treatLexicalEntry c1 vs = Inr c'"
    "map fst c' = map fst c1 @ first_seen (filter (\<lambda>k. k \<notin> set (map fst c1)) (map entry_text les'))"
    "\<forall>k. list_at c' k =
       list_at c1 k @ concat (map entry_contribution (filter (\<lambda>le. entry_text le = k) les'))"
    by blast
  have run: "reduce treatLexicalEntry c (v # vs) = Inr c'"
    using step c'(1) by simp
  have keys: "map fst c' =
      map fst c @ first_seen (filter (\<lambda>k. k \<notin> set (map fst c)) (map entry_text les))"
  proof (cases "k \<in> set (map fst c)")
    case True
    then have "map fst c1 = map fst c" by (simp add: c1_def keys_collector_set)
    with True c'(2) le(3) show ?thesis
      using first_seen_step [of "map fst c" k "map entry_text les'"] by (simp add: k_def)
  next
    case False
    then have "map fst c1 = map fst c @ [k]" by (simp add: c1_def keys_collector_set)
    with False c'(2) le(3) show ?thesis
      using first_seen_step [of "map fst c" k "map entry_text les'"] by (simp add: k_def)
  qed
  have lists: "list_at c' j =
      list_at c j @ concat (map entry_contribution (filter (\<lambda>le. entry_text le = j) les))" for j
    using c'(3) le(3) by (simp add: c1_def list_at_collector_set k_def)
  from run keys lists show ?case by blast
qed

lemma treatTopLevelObject_decoded:
  assumes "decode_result v = Some r"
  shows "\<exists>lvs. decode_list decode_lexical lvs = Some (result_lexicalEntries r)
      \<and> (\<forall>c. treatTopLevelObject c v = reduce treatLexicalEntry c lvs)"
proof -
  from assms obtain kvs where v: "v = JObj kvs" by (cases v) simp_all
  with assms obtain lvs les where "map_of kvs ''lexicalEntries'' = Some (JArr lvs)"
    "decode_list decode_lexical lvs = Some les" "r = ResultEntry les"
    by (auto split: option.splits jsval.splits)
  with v show ?thesis by (auto simp: treatTopLevelObject_def)
qed

lemma reduce_results:
  "decode_list decode_result vs = Some rs \<Longrightarrow>
   \<exists>lvs. decode_list decode_lexical lvs = Some (all_lexical_entries rs)
      \<and> (\<forall>c. reduce treatTopLevelObject c vs = reduce treatLexicalEntry c lvs)"
proof (induction vs arbitrary: rs)
  case Nil
  then have "decode_list decode_lexical [] = Some (all_lexical_entries rs)"
    by (simp add: all_lexical_entries_def)
  then show ?case by (intro exI [of _ "[]"]) simp
next
  case (Cons v vs)
  from Cons.prems [unfolded decode_list_Cons]
  obtain r rs' where r: "decode_result v = Some r" "decode_list decode_result vs = Some rs'"
    "rs = r # rs'"
    by blast
  from treatTopLevelObject_decoded [OF r(1)]
  obtain lvs1 where lvs1: "decode_list decode_lexical lvs1 = Some (result_lexicalEntries r)"
    "\<forall>c. treatTopLevelObject c v = reduce treatLexicalEntry c lvs1"
    by blast
  from Cons.IH [OF r(2)]
  obtain lvs2 where lvs2: "decode_list decode_lexical lvs2 = Some (all_lexical_entries rs')"
    "\<forall>c. reduce treatTopLevelObject c vs = reduce treatLexicalEntry c lvs2"
    by blast
  have "decode_list decode_lexical (lvs1 @ lvs2) = Some (all_lexical_entries rs)"
    using decode_list_append [OF lvs1(1) lvs2(1)] r(3) by (simp add: all_lexical_entries_def)
  moreover have "reduce treatTopLevelObject c (v # vs) = reduce treatLexicalEntry c (lvs1 @ lvs2)" for c
    using lvs1(2) lvs2(2) by (simp add: reduce_append)
  ultimately show ?case by blast
qed

lemma collect_decoded:
  assumes "decode_results v = Some rs" and "\<forall>k\<in>set (labels rs). \<not> inherited k"
  shows "\<exists>c. collect v = Inr c \<and> map fst c = first_seen (labels rs)
      \<and> (\<forall>k. list_at c k =
            concat (map entry_contribution
              (filter (\<lambda>le. entry_text le = k) (all_lexical_entries rs))))"
proof -
  from assms(1) obtain vs where v: "v = JArr vs" "decode_list decode_result vs = Some rs"
    by (cases v) simp_all
  from reduce_results [OF v(2)]
  obtain lvs where lvs: "decode_list decode_lexical lvs = Some (all_lexical_entries rs)"
    "\<forall>c. reduce treatTopLevelObject c vs = reduce treatLexicalEntry c lvs"
    by blast
  have "\<forall>le\<in>set (all_lexical_entries rs). \<not> inherited (entry_text le)"
    using assms(2) by (simp add: labels_def)
  from reduce_lexical [OF lvs(1) this, of "[]"] lvs(2) v(1)
  show ?thesis
    by (simp add: collect_def labels_def list_at_def)
qed

lemma object_keys_plain:
  assumes "\<forall>k\<in>set (map fst c). \<not> is_array_index k"
  shows "object_keys c = map fst c"
proof -
  from assms have "filter is_array_index (map fst c) = []"
    by (simp add: filter_empty_conv)
  moreover from assms have "filter (\<lambda>k. \<not> is_array_index k) (map fst c) = map fst c"
    by (simp add: filter_id_conv)
  ultimately show ?thesis by (simp add: object_keys_def)
qed

subsection \<open>Unfolding rules for closed terms\<close>

lemmas reducer_defs = collect_def treatTopLevelObject_def treatLexicalEntry_def treatEntry_def
  treatSense_def flat_def collector_get_def object_prototype_def

lemmas renderer_defs = render_definitions_def render_category_def render_line_def
  object_keys_def is_array_index_def is_digit_def digits_value_def collector_get_def
  newline_def digit_char_def enumerate_eq_zip

lemmas sample_defs = scenario_A_def scenario_B_def scenario_C_def inherited_label_def
  index_label_def sense_without_definitions_def lexical_def result_def response_of_def
  oxford_def three_entries_def without_metadata_def lacking_entries_def

subsection \<open>Numbered lines\<close>

lemma render_lines_strings:
  "map_array render_line (enumerate n (map JStr ds)) =
     Inr (map (\<lambda>p. nat_to_string (fst p + 1) @ ''. '' @ snd p) (enumerate n ds))"
  by (induction ds arbitrary: n) (simp_all add: render_line_def)

lemma object_keys_single: "object_keys [(k, v)] = [k]"
  by (simp add: object_keys_def)

lemma render_single_strings:
  "render_definitions [(category, map JStr (d # ds))] =
     Inr (newline @ ''# '' @ category @ newline
          @ join_with newline
              (map (\<lambda>p. nat_to_string (fst p + 1) @ ''. '' @ snd p) (enumerate 0 (d # ds)))
          @ newline)"
proof -
  have "map_array render_line (enumerate 0 (map JStr (d # ds))) =
      Inr (map (\<lambda>p. nat_to_string (fst p + 1) @ ''. '' @ snd p) (enumerate 0 (d # ds)))"
    by (rule render_lines_strings)
  then show ?thesis
    by (simp add: render_definitions_def object_keys_single render_category_def
        collector_get_def del: map_array.simps enumerate_simps list.map)
qed

subsection \<open>Reads and sequencing\<close>

lemma get_prop_defined:
  "get_prop v f = Inr x \<Longrightarrow> \<exists>y. get_prop v g = Inr y"
  by (cases v) simp_all

lemma then_do_assoc:
  "then_do (then_do r f) g = then_do r (\<lambda>x. then_do (f x) g)"
  by (cases r) simp_all

lemma isl_then_do: "isl r \<Longrightarrow> isl (then_do r f)"
  by (cases r) simp_all

subsection \<open>The renderer and empty categories\<close>

lemma render_category_append:
  "render_category c shown k = then_do (render_category c [] k) (\<lambda>s. Inr (shown @ s))"
proof (cases "collector_get c k")
  case (Own data)
  then show ?thesis
    by (cases "map_array render_line (enumerate 0 data)") (simp_all add: render_category_def)
next
  case (Inherited l)
  then show ?thesis
    by (simp add: render_category_def split: option.splits nat.splits)
next
  case Absent
  then show ?thesis by (simp add: render_category_def)
qed

lemma forEach_category_append:
  "forEach_category c shown ks = then_do (forEach_category c [] ks) (\<lambda>s. Inr (shown @ s))"
proof (induction ks arbitrary: shown)
  case Nil
  show ?case by simp
next
  case (Cons k ks)
  show ?case
  proof (cases "render_category c [] k")
    case (Inl e)
    then show ?thesis
      using render_category_append [of c shown k] by simp
  next
    case (Inr s)
    then have "render_category c shown k = Inr (shown @ s)"
      using render_category_append [of c shown k] by simp
    with Inr show ?thesis
      using Cons.IH [of "shown @ s"] Cons.IH [of s]
      by (cases "forEach_category c [] ks") simp_all
  qed
qed

lemma render_category_empty:
  "collector_get c k = Own [] \<Longrightarrow> render_category c shown k = Inr shown"
  by (simp add: render_category_def)

lemma forEach_category_skip:
  "forEach_category c shown (filter (\<lambda>k. collector_get c k \<noteq> Own []) ks) =
     forEach_category c shown ks"
  by (induction ks arbitrary: shown) (simp_all add: render_category_empty)

lemma forEach_category_cong:
  "\<forall>k\<in>set ks. collector_get c1 k = collector_get c2 k \<Longrightarrow>
     forEach_category c1 shown ks = forEach_category c2 shown ks"
  by (induction ks arbitrary: shown) (simp_all add: render_category_def)

lemma collector_get_Own: "collector_get c k = Own v \<longleftrightarrow> map_of c k = Some v"
  by (auto simp: collector_get_def split: option.splits)

lemma keys_nonempty:
  "distinct (map fst c) \<Longrightarrow>
     map fst (filter (\<lambda>p. snd p \<noteq> []) c) =
       filter (\<lambda>k. collector_get c k \<noteq> Own []) (map fst c)"
proof (induction c)
  case Nil
  show ?case by simp
next
  case (Cons p c)
  obtain k v where p: "p = (k, v)" by (cases p)
  from Cons.prems p have fresh: "k \<notin> set (map fst c)" and rest: "distinct (map fst c)"
    by simp_all
  have tail: "filter (\<lambda>j. collector_get ((k, w) # c) j \<noteq> Own []) (map fst c) =
      filter (\<lambda>j. collector_get c j \<noteq> Own []) (map fst c)" for w
  proof (rule filter_cong [OF refl])
    fix j assume "j \<in> set (map fst c)"
    with fresh have "j \<noteq> k" by auto
    then show "(collector_get ((k, w) # c) j \<noteq> Own []) = (collector_get c j \<noteq> Own [])"
      by (simp add: collector_get_def)
  qed
  have head: "collector_get ((k, v) # c) k = Own v"
    by (simp add: collector_get_def)
  show ?case
    unfolding p using Cons.IH [OF rest] by (simp add: tail head)
qed

lemma object_keys_nonempty:
  assumes "distinct (map fst c)"
  shows "object_keys (filter (\<lambda>p. snd p \<noteq> []) c) =
     filter (\<lambda>k. collector_get c k \<noteq> Own []) (object_keys c)"
  by (simp add: object_keys_def keys_nonempty [OF assms] filter_sort [symmetric] conj_commute)

lemma collector_get_nonempty:
  assumes "collector_get c k \<noteq> Own []" and "k \<in> set (map fst c)"
  shows "collector_get (filter (\<lambda>p. snd p \<noteq> []) c) k = collector_get c k"
proof -
  from assms(2) obtain v where v: "map_of c k = Some v"
    by (cases "map_of c k") (simp_all add: map_of_eq_None_iff)
  with assms(1) have "v \<noteq> []" by (auto simp: collector_get_def)
  with v have "map_of (filter (\<lambda>(k, v). v \<noteq> []) c) k = Some v"
    by (intro map_of_filter_in) simp_all
  then have "map_of (filter (\<lambda>p. snd p \<noteq> []) c) k = Some v"
    by (simp add: case_prod_unfold)
  with v show ?thesis by (simp add: collector_get_def)
qed

lemma set_object_keys: "set (object_keys c) = set (map fst c)"
  by (auto simp: object_keys_def)

lemma render_nonempty:
  assumes "distinct (map fst c)"
  shows "render_definitions (filter (\<lambda>p. snd p \<noteq> []) c) = render_definitions c"
proof -
  let ?ks = "filter (\<lambda>k. collector_get c k \<noteq> Own []) (object_keys c)"
  have "\<forall>k\<in>set ?ks. collector_get (filter (\<lambda>p. snd p \<noteq> []) c) k = collector_get c k"
    using collector_get_nonempty by (simp add: set_object_keys)
  then have "forEach_category (filter (\<lambda>p. snd p \<noteq> []) c) [] ?ks = forEach_category c [] ?ks"
    by (rule forEach_category_cong)
  then show ?thesis
    by (simp add: render_definitions_def object_keys_nonempty [OF assms] forEach_category_skip)
qed

lemma render_all_empty:
  assumes "\<forall>p\<in>set c. snd p = []"
  shows "render_definitions c = Inr []"
proof -
  have "collector_get c k = Own []" if "k \<in> set (object_keys c)" for k
  proof -
    from that obtain v where v: "map_of c k = Some v"
      by (cases "map_of c k") (simp_all add: map_of_eq_None_iff set_object_keys)
    then have "(k, v) \<in> set c" by (rule map_of_SomeD)
    with assms have "v = []" by auto
    with v show ?thesis by (simp add: collector_get_def)
  qed
  then have "filter (\<lambda>k. collector_get c k \<noteq> Own []) (object_keys c) = []"
    by (simp add: filter_empty_conv)
  then show ?thesis
    using forEach_category_skip [of c "[]" "object_keys c"] by (simp add: render_definitions_def)
qed

subsection \<open>The lists of fully defined entries\<close>







subsection \<open>The keys of a collector are distinct\<close>

lemma reduce_preserves:
  assumes "\<And>c x c'. P c \<Longrightarrow> f c x = Inr c' \<Longrightarrow> P c'"
  shows "P c \<Longrightarrow> reduce f c xs = Inr c' \<Longrightarrow> P c'"
proof (induction xs arbitrary: c)
  case Nil
  then show ?case by simp
next
  case (Cons x xs)
  from Cons.prems(2) obtain c1 where c1: "f c x = Inr c1" "reduce f c1 xs = Inr c'"
    by (auto simp: then_do_eq_Inr)
  from assms [OF Cons.prems(1) c1(1)] have "P c1" .
  from Cons.IH [OF this c1(2)] show ?case .
qed

lemma treatLexicalEntry_distinct:
  "distinct (map fst c) \<Longrightarrow> treatLexicalEntry c le = Inr c' \<Longrightarrow> distinct (map fst c')"
  by (auto simp: treatLexicalEntry_def then_do_eq_Inr distinct_collector_set)

lemma treatTopLevelObject_distinct:
  assumes "distinct (map fst c)" and "treatTopLevelObject c t = Inr c'"
  shows "distinct (map fst c')"
proof -
  from assms(2) obtain les where "reduce treatLexicalEntry c les = Inr c'"
    by (auto simp: treatTopLevelObject_def then_do_eq_Inr)
  with assms(1) show ?thesis
    using reduce_preserves [of "\<lambda>c. distinct (map fst c)" treatLexicalEntry c les c']
      treatLexicalEntry_distinct
    by blast
qed

lemma collect_distinct:
  assumes "collect results = Inr c"
  shows "distinct (map fst c)"
proof -
  from assms obtain rs where "reduce treatTopLevelObject [] rs = Inr c"
    by (auto simp: collect_def then_do_eq_Inr)
  moreover have "distinct (map fst ([] :: collection))" by simp
  ultimately show ?thesis
    using reduce_preserves [of "\<lambda>c. distinct (map fst c)" treatTopLevelObject "[]" rs c]
      treatTopLevelObject_distinct
    by blast
qed

subsection \<open>Labels that a plain object inherits\<close>

lemma inherited_current:
  assumes "inherited k" and "k \<notin> set (map fst c)"
  shows "spread_current (collector_get c k) = Inl NotIterable"
proof -
  from assms(1) obtain l where "map_of object_prototype k = Some l"
    by (cases "map_of object_prototype k") (simp_all add: inherited_def map_of_eq_None_iff)
  moreover from assms(2) have "map_of c k = None"
    by (simp add: map_of_eq_None_iff)
  ultimately show ?thesis by (simp add: collector_get_def)
qed

lemma reduce_lexical_inherited:
  "decode_list decode_lexical vs = Some les \<Longrightarrow>
   \<exists>le\<in>set les. inherited (entry_text le) \<Longrightarrow>
   \<forall>k\<in>set (map fst c). \<not> inherited k \<Longrightarrow>
   reduce treatLexicalEntry c vs = Inl NotIterable"
proof (induction vs arbitrary: c les)
  case Nil
  then show ?case by simp
next
  case (Cons v vs)
  from Cons.prems(1) [unfolded decode_list_Cons]
  obtain le les' where le: "decode_lexical v = Some le" "decode_list decode_lexical vs = Some les'"
    "les = le # les'"
    by blast
  show ?case
  proof (cases "inherited (entry_text le)")
    case True
    with Cons.prems(3) have "entry_text le \<notin> set (map fst c)" by blast
    with True show ?thesis
      by (simp add: treatLexicalEntry_decoded [OF le(1)] inherited_current)
  next
    case False
    with Cons.prems(2) le(3) have later: "\<exists>le\<in>set les'. inherited (entry_text le)" by simp
    define c1 where "c1 = collector_set c (entry_text le) (list_at c (entry_text le) @ entry_contribution le)"
    have step: "treatLexicalEntry c v = Inr c1"
      by (simp add: treatLexicalEntry_decoded [OF le(1)] not_inherited_current [OF False] c1_def)
    have "\<forall>k\<in>set (map fst c1). \<not> inherited k"
      using Cons.prems(3) False by (auto simp: c1_def keys_collector_set split: if_splits)
    from Cons.IH [OF le(2) later this] step show ?thesis by simp
  qed
qed

lemma collect_inherited:
  assumes "decode_results v = Some rs" and "\<exists>k\<in>set (labels rs). inherited k"
  shows "collect v = Inl NotIterable"
proof -
  from assms(1) obtain vs where v: "v = JArr vs" "decode_list decode_result vs = Some rs"
    by (cases v) simp_all
  from reduce_results [OF v(2)]
  obtain lvs where lvs: "decode_list decode_lexical lvs = Some (all_lexical_entries rs)"
    "\<forall>c. reduce treatTopLevelObject c vs = reduce treatLexicalEntry c lvs"
    by blast
  have "\<exists>le\<in>set (all_lexical_entries rs). inherited (entry_text le)"
    using assms(2) by (simp add: labels_def)
  from reduce_lexical_inherited [OF lvs(1) this, of "[]"] lvs(2) v(1)
  show ?thesis by (simp add: collect_def)
qed

subsection \<open>Entries without senses\<close>

lemma treatEntry_without_senses:
  "get_prop entry F_senses = Inr Undefined \<Longrightarrow> treatEntry entry = Inr []"
  by (simp add: treatEntry_def)

lemma map_treatEntry_without_senses:
  "\<forall>e\<in>set es. get_prop e F_senses = Inr Undefined \<Longrightarrow>
     map_array treatEntry es = Inr (replicate (length es) [])"
  by (induction es) (simp_all add: treatEntry_without_senses)

subsection \<open>The console\<close>

lemma treatResponse_console:
  "treatResponse expression response console =
     (console @ fst (treatResponse expression response []),
      snd (treatResponse expression response []))"
  by (simp add: treatResponse_def split: sum.splits prod.splits)

subsection \<open>Malformed responses\<close>

lemma isl_obtain: "isl r \<Longrightarrow> \<exists>e. r = Inl e"
  by (cases r) simp_all

lemma treatResponse_reducer_throws:
  assumes "get_prop response F_data = Inr data"
    and "get_prop data F_results = Inr results"
    and "collect results = Inl e"
  shows "treatResponse expression response console = (console, Some e)"
proof -
  from get_prop_defined [OF assms(2), of F_metadata]
  obtain metadata where "get_prop data F_metadata = Inr metadata" by blast
  with assms show ?thesis by (simp add: treatResponse_def)
qed

lemma treatTopLevelObject_without_lexicalEntries:
  "get_prop t F_lexicalEntries = Inr Undefined \<Longrightarrow>
     treatTopLevelObject c t = Inl ReadOfNullish"
  by (simp add: treatTopLevelObject_def)

lemma treatLexicalEntry_lacking:
  assumes "get_prop le F_lexicalCategory = Inr Undefined \<or> get_prop le F_entries = Inr Undefined"
  shows "treatLexicalEntry c le = Inl ReadOfNullish"
proof -
  from assms obtain x where "get_prop le F_entries = Inr x"
    using get_prop_defined by blast
  then obtain entries lexicalCategory where
    e: "get_prop le F_entries = Inr entries" and
    lc: "get_prop le F_lexicalCategory = Inr lexicalCategory"
    using get_prop_defined by blast
  show ?thesis
  proof (cases "get_prop lexicalCategory F_text")
    case (Inl err)
    then have "err = ReadOfNullish" by (cases lexicalCategory) simp_all
    with Inl e lc show ?thesis by (simp add: treatLexicalEntry_def)
  next
    case (Inr partOfSpeech)
    then have "lexicalCategory \<noteq> Undefined" by auto
    with assms e lc have "entries = Undefined" by auto
    with Inr e lc show ?thesis by (simp add: treatLexicalEntry_def)
  qed
qed

subsection \<open>Labels of the samples\<close>

lemma inherited_simps:
  "\<not> inherited ''Verb''" "\<not> inherited ''Noun''" "inherited ''constructor''"
  by (simp_all add: inherited_def object_prototype_def)

lemma is_array_index_simps:
  "\<not> is_array_index ''Verb''" "\<not> is_array_index ''Noun''" "is_array_index ''1''"
  by (simp_all add: is_array_index_def is_digit_def digits_value_def)

section \<open>Scenario A and the numbering of definitions\<close>

text \<open>
  C8. For the response of Scenario A the reducer returns the mapping with the single key
  Verb and the single definition "fix code"; the renderer turns it into the header line
  "# Verb" followed by "1. fix code", and \<^verbatim>\<open>treatResponse\<close> logs the banner, the title,
  that text and the banner. In general a category with the definitions \<open>d # ds\<close> is
  rendered as its header followed by one line per definition, numbered from 1 in the
  order of the list.
\<close>

theorem scenario_A_rendered:
  "collect scenario_A = Inr [(''Verb'', [JStr ''fix code''])]
   \<and> render_definitions [(''Verb'', [JStr ''fix code''])] =
       Inr (newline @ ''# Verb'' @ newline @ ''1. fix code'' @ newline)
   \<and> treatResponse ''debug'' (response_of oxford scenario_A) [] =
       ([banner, title ''debug'' ''Oxford University Press'',
         newline @ ''# Verb'' @ newline @ ''1. fix code'' @ newline, banner], None)
   \<and> render_definitions [(category, map JStr (d # ds))] =
       Inr (newline @ ''# '' @ category @ newline
            @ join_with newline
                (map (\<lambda>p. nat_to_string (fst p + 1) @ ''. '' @ snd p) (enumerate 0 (d # ds)))
            @ newline)"
proof -
  have reduced: "collect scenario_A = Inr [(''Verb'', [JStr ''fix code''])]"
    by (simp add: scenario_A_def reducer_defs)
  have rendered: "render_definitions [(''Verb'', [JStr ''fix code''])] =
      Inr (newline @ ''# Verb'' @ newline @ ''1. fix code'' @ newline)"
    by (simp add: renderer_defs)
  have logged: "treatResponse ''debug'' (response_of oxford scenario_A) [] =
      ([banner, title ''debug'' ''Oxford University Press'',
        newline @ ''# Verb'' @ newline @ ''1. fix code'' @ newline, banner], None)"
    by (simp add: treatResponse_def response_of_def oxford_def reduced rendered)
  show ?thesis
    using reduced rendered logged render_single_strings by blast
qed

theorem scenario_A_rendered_witness:
  "render_definitions [(''Noun'', map JStr [''a'', ''b''])] =
     Inr (newline @ ''# Noun'' @ newline @ ''1. a'' @ newline @ ''2. b'' @ newline)"
  using scenario_A_rendered [of "''Noun''" "''a''" "[''b'']"]
  by (simp add: digit_char_def)

section \<open>A sense without definitions\<close>

text \<open>
  C1. A Sense object that has no definitions key raises no error, but it does not
  contribute zero entries: \<^verbatim>\<open>treatSense\<close> appends the undefined value it read, and the
  renderer prints it as the numbered line "1. undefined".
\<close>

theorem sense_without_definitions_adds_undefined:
  "treatSense [] (JObj []) = Inr [Undefined]
   \<and> treatEntry (JObj [(''senses'', JArr [JObj []])]) = Inr [Undefined]
   \<and> collect sense_without_definitions = Inr [(''Noun'', [Undefined])]
   \<and> treatResponse ''so'' (response_of oxford sense_without_definitions) [] =
       ([banner, title ''so'' ''Oxford University Press'',
         newline @ ''# Noun'' @ newline @ ''1. undefined'' @ newline, banner], None)"
proof -
  have reduced: "collect sense_without_definitions = Inr [(''Noun'', [Undefined])]"
    by (simp add: sense_without_definitions_def reducer_defs)
  have rendered: "render_definitions [(''Noun'', [Undefined])] =
      Inr (newline @ ''# Noun'' @ newline @ ''1. undefined'' @ newline)"
    by (simp add: renderer_defs)
  have logged: "treatResponse ''so'' (response_of oxford sense_without_definitions) [] =
      ([banner, title ''so'' ''Oxford University Press'',
        newline @ ''# Noun'' @ newline @ ''1. undefined'' @ newline, banner], None)"
    by (simp add: treatResponse_def response_of_def oxford_def reduced rendered)
  have "treatSense [] (JObj []) = Inr [Undefined]"
    by (simp add: treatSense_def flat_def)
  moreover have "treatEntry (JObj [(''senses'', JArr [JObj []])]) = Inr [Undefined]"
    by (simp add: treatEntry_def treatSense_def flat_def)
  ultimately show ?thesis
    using reduced logged by blast
qed

section \<open>Order of the categories\<close>

text \<open>
  C3 (as amended). For every response of the documented shape whose part-of-speech labels
  are not array indices (canonical decimal numerals such as "1"), the keys of the mapping
  that the reducer returns, as \<^verbatim>\<open>Object.keys\<close> lists them, are the labels in the order
  in which the traversal first met them, and the renderer visits the categories in
  exactly that order, without sorting. The reducer returns a mapping whenever no label is
  a name that a plain object inherits.
\<close>

theorem keys_in_first_seen_order:
  assumes "decode_results v = Some rs"
    and "\<forall>k\<in>set (labels rs). \<not> is_array_index k"
  shows "((\<forall>k\<in>set (labels rs). \<not> inherited k) \<longrightarrow> (\<exists>c. collect v = Inr c))
     \<and> (collect v = Inr c \<longrightarrow>
          object_keys c = first_seen (labels rs)
          \<and> render_definitions c = forEach_category c [] (first_seen (labels rs)))"
proof (intro conjI impI)
  assume "\<forall>k\<in>set (labels rs). \<not> inherited k"
  from collect_decoded [OF assms(1) this] show "\<exists>c. collect v = Inr c"
    by blast
next
  assume returned: "collect v = Inr c"
  have "\<forall>k\<in>set (labels rs). \<not> inherited k"
  proof (rule ccontr)
    assume "\<not> (\<forall>k\<in>set (labels rs). \<not> inherited k)"
    then have "\<exists>k\<in>set (labels rs). inherited k" by blast
    from collect_inherited [OF assms(1) this] returned show False by simp
  qed
  from collect_decoded [OF assms(1) this] returned
  have keys: "map fst c = first_seen (labels rs)"
    by auto
  with assms(2) have "\<forall>k\<in>set (map fst c). \<not> is_array_index k"
    by (simp add: set_first_seen)
  then show order: "object_keys c = first_seen (labels rs)"
    using keys by (simp add: object_keys_plain)
  then show "render_definitions c = forEach_category c [] (first_seen (labels rs))"
    by (simp add: render_definitions_def)
qed

text \<open>An instance: Verb, Noun, Verb over two result entries gives the keys Verb, Noun.\<close>

theorem keys_in_first_seen_order_witness:
  "decode_results three_entries =
     Some [ResultEntry [LexicalEntry ''Verb'' [SenseGroup (Some [Sense (Some [''a''])])],
                        LexicalEntry ''Noun'' [SenseGroup (Some [Sense (Some [''b''])])]],
           ResultEntry [LexicalEntry ''Verb'' [SenseGroup (Some [Sense (Some [''c''])])]]]
   \<and> collect three_entries = Inr [(''Verb'', [JStr ''a'', JStr ''c'']), (''Noun'', [JStr ''b''])]
   \<and> object_keys [(''Verb'', [JStr ''a'', JStr ''c'']), (''Noun'', [JStr ''b''])] =
       [''Verb'', ''Noun'']"
proof -
  let ?rs = "[ResultEntry [LexicalEntry ''Verb'' [SenseGroup (Some [Sense (Some [''a''])])],
                        LexicalEntry ''Noun'' [SenseGroup (Some [Sense (Some [''b''])])]],
           ResultEntry [LexicalEntry ''Verb'' [SenseGroup (Some [Sense (Some [''c''])])]]]"
  let ?c = "[(''Verb'', [JStr ''a'', JStr ''c'']), (''Noun'', [JStr ''b''])]"
  have decoded: "decode_results three_entries = Some ?rs"
    by (simp add: sample_defs)
  have labels: "labels ?rs = [''Verb'', ''Noun'', ''Verb'']"
    by (simp add: labels_def all_lexical_entries_def)
  have plain: "\<forall>k\<in>set (labels ?rs). \<not> is_array_index k"
    by (simp add: labels is_array_index_simps)
  have returned: "collect three_entries = Inr ?c"
    by (simp add: sample_defs reducer_defs)
  from keys_in_first_seen_order [OF decoded plain, of ?c] returned
  have "object_keys ?c = first_seen (labels ?rs)"
    by blast
  then have keys: "object_keys ?c = [''Verb'', ''Noun'']"
    by (simp add: labels)
  show ?thesis
    by (intro conjI) (fact decoded returned keys)+
qed

text \<open>
  The claim as stated fails for a label that is an array index: \<^verbatim>\<open>Object.keys\<close> lists
  such keys first. With the labels Noun and then 1, the key 1 and its block come first.
\<close>

theorem index_label_comes_first:
  "decode_results index_label =
     Some [ResultEntry [LexicalEntry ''Noun'' [SenseGroup (Some [Sense (Some [''a''])])],
                        LexicalEntry ''1'' [SenseGroup (Some [Sense (Some [''b''])])]]]
   \<and> first_seen [''Noun'', ''1''] = [''Noun'', ''1'']
   \<and> collect index_label = Inr [(''Noun'', [JStr ''a'']), (''1'', [JStr ''b''])]
   \<and> object_keys [(''Noun'', [JStr ''a'']), (''1'', [JStr ''b''])] = [''1'', ''Noun'']
   \<and> render_definitions [(''Noun'', [JStr ''a'']), (''1'', [JStr ''b''])] =
       Inr (newline @ ''# 1'' @ newline @ ''1. b'' @ newline
            @ newline @ ''# Noun'' @ newline @ ''1. a'' @ newline)"
proof -
  have "decode_results index_label =
     Some [ResultEntry [LexicalEntry ''Noun'' [SenseGroup (Some [Sense (Some [''a''])])],
                        LexicalEntry ''1'' [SenseGroup (Some [Sense (Some [''b''])])]]]"
    by (simp add: sample_defs)
  moreover have "first_seen [''Noun'', ''1''] = [''Noun'', ''1'']"
    by simp
  moreover have "collect index_label = Inr [(''Noun'', [JStr ''a'']), (''1'', [JStr ''b''])]"
    by (simp add: sample_defs reducer_defs)
  moreover have "object_keys [(''Noun'', [JStr ''a'']), (''1'', [JStr ''b''])] = [''1'', ''Noun'']"
    by (simp add: object_keys_def is_array_index_simps)
  moreover have "render_definitions [(''Noun'', [JStr ''a'']), (''1'', [JStr ''b''])] =
       Inr (newline @ ''# 1'' @ newline @ ''1. b'' @ newline
            @ newline @ ''# Noun'' @ newline @ ''1. a'' @ newline)"
    by (simp add: renderer_defs)
  ultimately show ?thesis by blast
qed

section \<open>Entries with the same label\<close>




section \<open>Categories without definitions\<close>

text \<open>
  C5. A category whose list is empty produces no output: the body of the loop returns
  the text accumulated so far unchanged, so the rendered text is that of the categories
  with a non-empty list alone; removing the empty categories from a mapping (an object,
  whose keys are distinct, such as every mapping that the reducer returns) does not
  change what is rendered, and a mapping with empty lists only renders as the empty
  text.
\<close>

theorem empty_category_not_rendered:
  "(collector_get c k = Own [] \<longrightarrow> render_category c shown k = Inr shown)
   \<and> render_definitions c =
       forEach_category c [] (filter (\<lambda>k. collector_get c k \<noteq> Own []) (object_keys c))
   \<and> (distinct (map fst c) \<or> collect results = Inr c \<longrightarrow>
         render_definitions (filter (\<lambda>p. snd p \<noteq> []) c) = render_definitions c)
   \<and> ((\<forall>p\<in>set c. snd p = []) \<longrightarrow> render_definitions c = Inr [])"
proof (intro conjI impI)
  show "render_category c shown k = Inr shown" if "collector_get c k = Own []"
    using that by (rule render_category_empty)
  show "render_definitions c =
      forEach_category c [] (filter (\<lambda>k. collector_get c k \<noteq> Own []) (object_keys c))"
    by (simp add: render_definitions_def forEach_category_skip)
  show "render_definitions (filter (\<lambda>p. snd p \<noteq> []) c) = render_definitions c"
    if "distinct (map fst c) \<or> collect results = Inr c"
  proof -
    from that have "distinct (map fst c)"
      using collect_distinct by blast
    then show ?thesis by (rule render_nonempty)
  qed
  show "render_definitions c = Inr []" if "\<forall>p\<in>set c. snd p = []"
    using that by (rule render_all_empty)
qed

text \<open>An instance: an empty Noun before a Verb with one definition.\<close>

theorem empty_category_not_rendered_witness:
  "collector_get [(''Noun'', []), (''Verb'', [JStr ''fix code''])] ''Noun'' = Own []
   \<and> render_category [(''Noun'', []), (''Verb'', [JStr ''fix code''])] ''seen'' ''Noun'' = Inr ''seen''
   \<and> distinct (map fst [(''Noun'', []), (''Verb'', [JStr ''fix code''])])
   \<and> render_definitions [(''Noun'', []), (''Verb'', [JStr ''fix code''])] =
       Inr (newline @ ''# Verb'' @ newline @ ''1. fix code'' @ newline)
   \<and> render_definitions [(''Noun'', [])] = Inr []"
proof -
  let ?c = "[(''Noun'', []), (''Verb'', [JStr ''fix code''])]"
  have own: "collector_get ?c ''Noun'' = Own []"
    by (simp add: collector_get_def)
  have keys: "distinct (map fst ?c)"
    by simp
  have one: "render_definitions [(''Verb'', [JStr ''fix code''])] =
      Inr (newline @ ''# Verb'' @ newline @ ''1. fix code'' @ newline)"
    by (simp add: renderer_defs)
  from empty_category_not_rendered [of ?c "''Noun''" "''seen''"] own keys
  have skipped: "render_category ?c ''seen'' ''Noun'' = Inr ''seen''"
    and same: "render_definitions (filter (\<lambda>p. snd p \<noteq> []) ?c) = render_definitions ?c"
    by blast+
  from same one have both: "render_definitions ?c =
      Inr (newline @ ''# Verb'' @ newline @ ''1. fix code'' @ newline)"
    by simp
  have "\<forall>p\<in>set [(''Noun'', [] :: jsval list)]. snd p = []"
    by simp
  with empty_category_not_rendered [of "[(''Noun'', [])]" "''Noun''" "''seen''"]
  have none: "render_definitions [(''Noun'', [])] = Inr []"
    by blast
  show ?thesis
    by (intro conjI) (fact own skipped keys both none)+
qed

section \<open>Entries without senses\<close>

text \<open>
  C6. An entry (SenseGroup) without a senses key is treated as one with no senses:
  \<^verbatim>\<open>treatEntry\<close> returns the empty list and raises no error. A lexical entry all of
  whose entries are such leaves the list of its category as it was; when it is the only
  contributor, the list of the category is empty, and nothing is rendered for it.
\<close>

theorem entry_without_senses:
  "(get_prop entry F_senses = Inr Undefined \<longrightarrow> treatEntry entry = Inr [])
   \<and> ((\<forall>e\<in>set es. get_prop e F_senses = Inr Undefined)
        \<and> get_prop lexicalEntry F_entries = Inr (JArr es)
        \<and> get_prop lexicalEntry F_lexicalCategory = Inr lexicalCategory
        \<and> get_prop lexicalCategory F_text = Inr partOfSpeech
        \<and> to_string partOfSpeech = Inr k \<longrightarrow>
          treatLexicalEntry c lexicalEntry =
            then_do (spread_current (collector_get c k)) (\<lambda>current.
              Inr (collector_set c k current))
          \<and> (\<not> inherited k \<longrightarrow>
                treatLexicalEntry c lexicalEntry = Inr (collector_set c k (list_at c k))
                \<and> treatLexicalEntry [] lexicalEntry = Inr [(k, [])])
          \<and> render_definitions [(k, [])] = Inr [])"
proof (intro conjI impI)
  assume "get_prop entry F_senses = Inr Undefined"
  then show "treatEntry entry = Inr []" by (rule treatEntry_without_senses)
next
  assume a: "(\<forall>e\<in>set es. get_prop e F_senses = Inr Undefined)
        \<and> get_prop lexicalEntry F_entries = Inr (JArr es)
        \<and> get_prop lexicalEntry F_lexicalCategory = Inr lexicalCategory
        \<and> get_prop lexicalCategory F_text = Inr partOfSpeech
        \<and> to_string partOfSpeech = Inr k"
  then have mapped: "map_array treatEntry es = Inr (replicate (length es) [])"
    by (simp add: map_treatEntry_without_senses)
  from a mapped
  show step: "treatLexicalEntry d lexicalEntry =
      then_do (spread_current (collector_get d k)) (\<lambda>current. Inr (collector_set d k current))"
    for d
    by (simp add: treatLexicalEntry_def)
  show "render_definitions [(k, [])] = Inr []"
    by (simp add: render_all_empty)
  assume "\<not> inherited k"
  then have cur: "spread_current (collector_get d k) = Inr (list_at d k)" for d
    by (rule not_inherited_current)
  show "treatLexicalEntry c lexicalEntry = Inr (collector_set c k (list_at c k))"
    by (simp add: step cur)
  show "treatLexicalEntry [] lexicalEntry = Inr [(k, [])]"
    by (simp add: step cur list_at_def)
qed

text \<open>Scenario B as an instance.\<close>

theorem entry_without_senses_witness:
  "get_prop (JObj []) F_senses = Inr Undefined
   \<and> treatEntry (JObj []) = Inr []
   \<and> treatLexicalEntry [] scenario_B = Inr [(''Noun'', [])]
   \<and> render_definitions [(''Noun'', [])] = Inr []"
proof -
  have absent: "get_prop (JObj []) F_senses = Inr Undefined"
    by simp
  have "(\<forall>e\<in>set [JObj []]. get_prop e F_senses = Inr Undefined)
      \<and> get_prop scenario_B F_entries = Inr (JArr [JObj []])
      \<and> get_prop scenario_B F_lexicalCategory = Inr (JObj [(''text'', JStr ''Noun'')])
      \<and> get_prop (JObj [(''text'', JStr ''Noun'')]) F_text = Inr (JStr ''Noun'')
      \<and> to_string (JStr ''Noun'') = Inr ''Noun''"
    and "\<not> inherited ''Noun''"
    by (simp_all add: scenario_B_def inherited_simps)
  with entry_without_senses [of "JObj []" "[JObj []]" scenario_B
      "JObj [(''text'', JStr ''Noun'')]" "JStr ''Noun''" "''Noun''" "[]"] absent
  show ?thesis by blast
qed

section \<open>Rendering keeps no state\<close>

text \<open>
  C7. The renderer depends on the mapping only (and on the expression and the provider
  for the title): the text it adds does not depend on the text accumulated before, what
  \<^verbatim>\<open>treatResponse\<close> logs and throws does not depend on the console it finds, and a
  second call on the same response logs the same lines again.
\<close>

theorem rendering_keeps_no_state:
  "forEach_category c shown ks = then_do (forEach_category c [] ks) (\<lambda>s. Inr (shown @ s))
   \<and> treatResponse expression response console =
       (console @ fst (treatResponse expression response []),
        snd (treatResponse expression response []))
   \<and> treatResponse expression response (fst (treatResponse expression response console)) =
       (console @ fst (treatResponse expression response [])
                @ fst (treatResponse expression response []),
        snd (treatResponse expression response console))"
proof (intro conjI)
  show "forEach_category c shown ks = then_do (forEach_category c [] ks) (\<lambda>s. Inr (shown @ s))"
    by (rule forEach_category_append)
  show first: "treatResponse expression response console =
       (console @ fst (treatResponse expression response []),
        snd (treatResponse expression response []))"
    by (rule treatResponse_console)
  show "treatResponse expression response (fst (treatResponse expression response console)) =
       (console @ fst (treatResponse expression response [])
                @ fst (treatResponse expression response []),
        snd (treatResponse expression response console))"
    using treatResponse_console [of expression response "fst (treatResponse expression response console)"]
      treatResponse_console [of expression response console]
    by simp
qed

section \<open>Responses without results or lexical entries\<close>

text \<open>
  C2. When the body of the response has no results, or when one of the result entries
  has no lexicalEntries, \<^verbatim>\<open>treatResponse\<close> throws (a TypeError, the error of the
  program for a malformed response) and logs nothing; the body \<^verbatim>\<open>{}\<close> is such a
  response.
\<close>

theorem malformed_response_throws:
  assumes "get_prop response F_data = Inr data"
    and "get_prop data F_results = Inr Undefined
       \<or> (\<exists>rs t. get_prop data F_results = Inr (JArr rs) \<and> t \<in> set rs
             \<and> get_prop t F_lexicalEntries = Inr Undefined)"
  shows "\<exists>e. treatResponse expression response console = (console, Some e)"
  using assms(2)
proof
  assume absent: "get_prop data F_results = Inr Undefined"
  have "collect Undefined = Inl ReadOfNullish"
    by (simp add: collect_def)
  from treatResponse_reducer_throws [OF assms(1) absent this] show ?thesis by blast
next
  assume "\<exists>rs t. get_prop data F_results = Inr (JArr rs) \<and> t \<in> set rs
             \<and> get_prop t F_lexicalEntries = Inr Undefined"
  then obtain rs t where rs: "get_prop data F_results = Inr (JArr rs)" and t: "t \<in> set rs"
    and lacking: "get_prop t F_lexicalEntries = Inr Undefined"
    by blast
  have "isl (treatTopLevelObject c t)" for c
    by (simp add: treatTopLevelObject_without_lexicalEntries [OF lacking])
  with t have "isl (reduce treatTopLevelObject [] rs)"
    by (rule reduce_throws)
  then obtain e where "collect (JArr rs) = Inl e"
    by (auto simp: collect_def dest: isl_obtain)
  from treatResponse_reducer_throws [OF assms(1) rs this] show ?thesis by blast
qed

text \<open>Scenario D, and a result entry that is the empty object.\<close>

theorem malformed_response_throws_witness:
  "treatResponse ''debug'' (JObj [(''data'', JObj [])]) [] = ([], Some ReadOfNullish)
   \<and> treatResponse ''debug'' (JObj [(''data'', JObj [(''results'', JArr [JObj []])])]) [] =
       ([], Some ReadOfNullish)"
proof -
  have "get_prop (JObj [(''data'', JObj [])]) F_data = Inr (JObj [])"
    and "get_prop (JObj []) F_results = Inr Undefined"
    by simp_all
  from malformed_response_throws [OF this(1), of "''debug''" "[]"] this(2)
  have "\<exists>e. treatResponse ''debug'' (JObj [(''data'', JObj [])]) [] = ([], Some e)"
    by blast
  moreover have "treatResponse ''debug'' (JObj [(''data'', JObj [])]) [] = ([], Some ReadOfNullish)"
    by (simp add: treatResponse_def collect_def)
  moreover have "get_prop (JObj [(''data'', JObj [(''results'', JArr [JObj []])])]) F_data =
      Inr (JObj [(''results'', JArr [JObj []])])"
    and "get_prop (JObj [(''results'', JArr [JObj []])]) F_results = Inr (JArr [JObj []])"
    and "JObj [] \<in> set [JObj []]" and "get_prop (JObj []) F_lexicalEntries = Inr Undefined"
    by simp_all
  from malformed_response_throws [OF this(1), of "''debug''" "[]"] this(2,3,4)
  have "\<exists>e. treatResponse ''debug'' (JObj [(''data'', JObj [(''results'', JArr [JObj []])])]) [] =
      ([], Some e)"
    by blast
  moreover have "treatResponse ''debug'' (JObj [(''data'', JObj [(''results'', JArr [JObj []])])]) [] =
      ([], Some ReadOfNullish)"
    by (simp add: treatResponse_def collect_def treatTopLevelObject_def)
  ultimately show ?thesis by blast
qed

section \<open>Responses without metadata\<close>




section \<open>Lexical entries without category or entries\<close>

text \<open>
  C10. A lexical entry without lexicalCategory, or without entries, makes
  \<^verbatim>\<open>treatLexicalEntry\<close> throw; the entry is not skipped and nothing takes the place
  of the missing property. The error leaves \<^verbatim>\<open>treatTopLevelObject\<close>, the reduction
  of the results and \<^verbatim>\<open>treatResponse\<close>, which logs nothing.
\<close>

theorem lexical_entry_without_category_or_entries:
  assumes "get_prop lexicalEntry F_lexicalCategory = Inr Undefined
       \<or> get_prop lexicalEntry F_entries = Inr Undefined"
  shows "treatLexicalEntry c lexicalEntry = Inl ReadOfNullish
     \<and> (get_prop t F_lexicalEntries = Inr (JArr les) \<and> lexicalEntry \<in> set les \<longrightarrow>
          (\<exists>e. treatTopLevelObject c t = Inl e)
          \<and> (t \<in> set rs \<longrightarrow> (\<exists>e. collect (JArr rs) = Inl e)
                \<and> (get_prop response F_data = Inr data
                    \<and> get_prop data F_results = Inr (JArr rs) \<longrightarrow>
                     (\<exists>e. treatResponse expression response console = (console, Some e)))))"
proof (intro conjI impI)
  show "treatLexicalEntry c lexicalEntry = Inl ReadOfNullish"
    by (rule treatLexicalEntry_lacking [OF assms])
next
  assume t: "get_prop t F_lexicalEntries = Inr (JArr les) \<and> lexicalEntry \<in> set les"
  have one: "isl (treatLexicalEntry d lexicalEntry)" for d
    by (simp add: treatLexicalEntry_lacking [OF assms])
  from t have "lexicalEntry \<in> set les" by simp
  then have "isl (reduce treatLexicalEntry d les)" for d
    using one by (rule reduce_throws)
  with t have top: "isl (treatTopLevelObject d t)" for d
    by (simp add: treatTopLevelObject_def)
  then show "\<exists>e. treatTopLevelObject c t = Inl e"
    by (rule isl_obtain)
  assume "t \<in> set rs"
  then have "isl (reduce treatTopLevelObject [] rs)"
    using top by (rule reduce_throws)
  then show thrown: "\<exists>e. collect (JArr rs) = Inl e"
    by (auto simp: collect_def dest: isl_obtain)
  assume "get_prop response F_data = Inr data \<and> get_prop data F_results = Inr (JArr rs)"
  with thrown show "\<exists>e. treatResponse expression response console = (console, Some e)"
    using treatResponse_reducer_throws by blast
qed

text \<open>An instance of each kind.\<close>

theorem lexical_entry_without_category_or_entries_witness:
  "get_prop lacking_entries F_entries = Inr Undefined
   \<and> treatLexicalEntry [] lacking_entries = Inl ReadOfNullish
   \<and> get_prop (JObj [(''entries'', JArr [])]) F_lexicalCategory = Inr Undefined
   \<and> treatLexicalEntry [] (JObj [(''entries'', JArr [])]) = Inl ReadOfNullish
   \<and> (\<exists>e. treatResponse ''debug'' (response_of oxford (JArr [result [lacking_entries]])) [] =
          ([], Some e))"
proof -
  have entries: "get_prop lacking_entries F_entries = Inr Undefined"
    by (simp add: lacking_entries_def)
  have category: "get_prop (JObj [(''entries'', JArr [])]) F_lexicalCategory = Inr Undefined"
    by simp
  have shape: "get_prop (result [lacking_entries]) F_lexicalEntries = Inr (JArr [lacking_entries])
      \<and> lacking_entries \<in> set [lacking_entries]"
    "result [lacking_entries] \<in> set [result [lacking_entries]]"
    "get_prop (response_of oxford (JArr [result [lacking_entries]])) F_data =
        Inr (JObj [(''metadata'', oxford), (''results'', JArr [result [lacking_entries]])])
     \<and> get_prop (JObj [(''metadata'', oxford), (''results'', JArr [result [lacking_entries]])])
          F_results = Inr (JArr [result [lacking_entries]])"
    by (simp_all add: result_def response_of_def)
  from lexical_entry_without_category_or_entries [of lacking_entries "[]"
      "result [lacking_entries]" "[lacking_entries]" "[result [lacking_entries]]"
      "response_of oxford (JArr [result [lacking_entries]])"
      "JObj [(''metadata'', oxford), (''results'', JArr [result [lacking_entries]])]"
      "''debug''" "[]"] entries shape
  have one: "treatLexicalEntry [] lacking_entries = Inl ReadOfNullish"
    and all: "\<exists>e. treatResponse ''debug'' (response_of oxford (JArr [result [lacking_entries]])) [] =
          ([], Some e)"
    by blast+
  from lexical_entry_without_category_or_entries [of "JObj [(''entries'', JArr [])]" "[]"] category
  have other: "treatLexicalEntry [] (JObj [(''entries'', JArr [])]) = Inl ReadOfNullish"
    by blast
  show ?thesis
    by (intro conjI) (fact entries one category other all)+
qed

end
